theory Spec2Isabelle
  imports Complex_Main
begin

section \<open>Heading-to-page reconciliation (challenge-1a.py)\<close>

text \<open>
  The development embeds the heading locator of \<^verbatim>\<open>challenge-1a.py\<close>: the two text
  normalisers, \<^verbatim>\<open>search_heading_in_pdf_content\<close>,
  \<^verbatim>\<open>estimate_page_from_surrounding_headings\<close> and the loop of
  \<^verbatim>\<open>extract_headings_from_html\<close> that threads the cursor \<^verbatim>\<open>last_found_page\<close>.

  Conventions of the embedding.
  \<^item> Text is a \<open>string\<close> of ASCII characters, one \<open>char\<close> for each character of
    the Python string. The character classes of the regular expressions
    (\<^verbatim>\<open>\s\<close>, \<^verbatim>\<open>\w\<close>, \<^verbatim>\<open>\d\<close>), of \<^verbatim>\<open>str.strip\<close> and \<^verbatim>\<open>str.split\<close>, and
    \<^verbatim>\<open>str.lower\<close> are Python's on ASCII. Characters above code 127 are outside the
    model: the functions, being total, classify them as neither word characters nor
    white space.
  \<^item> Python integers are \<open>int\<close>; lengths and counts are \<open>nat\<close>.
  \<^item> The dictionary \<^verbatim>\<open>pdf_content_by_page\<close> is an association list read through
    \<open>map_of\<close>; its key view is the list of first components without repetitions.
  \<^item> Every operation of the source that can raise (subscripting a dictionary or a list,
    \<^verbatim>\<open>/\<close>, \<^verbatim>\<open>max\<close> of an empty sequence) returns a value of \<open>py_error + 'a\<close>.
  \<^item> The quotient \<^verbatim>\<open>word_matches / len(heading_words)\<close> is a Python float compared
    with the literal \<^verbatim>\<open>0.7\<close>. It is modelled by the exact rational quotient compared
    with \<open>7 / 10\<close>. Correct rounding is monotone and maps the quotient \<open>7 / 10\<close> to the
    literal's own double, so both comparisons agree unless a quotient \<open>k / n < 7 / 10\<close>
    rounds to that same double, which needs more than \<open>10 ^ 14\<close> heading words.
  \<^item> \<^verbatim>\<open>print\<close> calls are left out.
\<close>

subsection \<open>Python primitives that can raise\<close>

datatype py_error = KeyError | IndexError | ZeroDivisionError | ValueError

text \<open>\<^verbatim>\<open>xs[i]\<close> for a non-negative literal index.\<close>

definition py_index :: "'a list \<Rightarrow> nat \<Rightarrow> py_error + 'a" where
  "py_index xs i = (if i < length xs then Inr (xs ! i) else Inl IndexError)"

text \<open>\<^verbatim>\<open>a / b\<close> on two lengths.\<close>

definition py_truediv :: "nat \<Rightarrow> nat \<Rightarrow> py_error + rat" where
  "py_truediv a b = (if b = 0 then Inl ZeroDivisionError else Inr (of_nat a / of_nat b))"

text \<open>\<^verbatim>\<open>max(xs)\<close>.\<close>

fun py_max :: "int list \<Rightarrow> py_error + int" where
  "py_max [] = Inl ValueError"
| "py_max (x # xs) = Inr (fold max xs x)"

text \<open>\<^verbatim>\<open>needle in haystack\<close> on strings: the needle occurs as a contiguous block.\<close>

fun starts_with :: "'a list \<Rightarrow> 'a list \<Rightarrow> bool" where
  "starts_with [] ys = True"
| "starts_with (x # xs) [] = False"
| "starts_with (x # xs) (y # ys) = (x = y \<and> starts_with xs ys)"

fun str_in :: "'a list \<Rightarrow> 'a list \<Rightarrow> bool" where
  "str_in xs [] = (xs = [])"
| "str_in xs (y # ys) = (starts_with xs (y # ys) \<or> str_in xs ys)"

subsection \<open>Dictionary of page texts\<close>

type_synonym corpus = "(int \<times> string) list"

text \<open>\<^verbatim>\<open>d.keys()\<close>.\<close>

definition dict_keys :: "corpus \<Rightarrow> int list" where
  "dict_keys d = remdups (map fst d)"

text \<open>\<^verbatim>\<open>d[k]\<close>.\<close>

definition dict_get :: "corpus \<Rightarrow> int \<Rightarrow> py_error + string" where
  "dict_get d k = (case map_of d k of None \<Rightarrow> Inl KeyError | Some v \<Rightarrow> Inr v)"

subsection \<open>Text normaliser\<close>

definition is_space :: "char \<Rightarrow> bool" where
  "is_space c = (let n = (of_char c :: nat) in (9 \<le> n \<and> n \<le> 13) \<or> (28 \<le> n \<and> n \<le> 32))"

definition is_digit :: "char \<Rightarrow> bool" where
  "is_digit c = (let n = (of_char c :: nat) in 48 \<le> n \<and> n \<le> 57)"

definition is_upper :: "char \<Rightarrow> bool" where
  "is_upper c = (let n = (of_char c :: nat) in 65 \<le> n \<and> n \<le> 90)"

definition is_lower :: "char \<Rightarrow> bool" where
  "is_lower c = (let n = (of_char c :: nat) in 97 \<le> n \<and> n \<le> 122)"

text \<open>\<^verbatim>\<open>\w\<close>: letters, digits and the underscore.\<close>

definition is_word :: "char \<Rightarrow> bool" where
  "is_word c = (is_upper c \<or> is_lower c \<or> is_digit c \<or> c = CHR ''_'')"

definition lower_char :: "char \<Rightarrow> char" where
  "lower_char c = (if is_upper c then char_of (of_char c + (32 :: nat)) else c)"

text \<open>\<^verbatim>\<open>text.lower()\<close>.\<close>

definition py_lower :: "string \<Rightarrow> string" where
  "py_lower s = map lower_char s"

text \<open>\<^verbatim>\<open>re.sub(r'\s+', ' ', text)\<close>: every maximal run of white space becomes one blank.\<close>

function sub_ws_runs :: "string \<Rightarrow> string" where
  "sub_ws_runs [] = []"
| "sub_ws_runs (c # cs) =
     (if is_space c then CHR '' '' # sub_ws_runs (dropWhile is_space cs)
      else c # sub_ws_runs cs)"
  by pat_completeness auto
termination
  by (relation "measure length") (auto simp: length_dropWhile_le less_Suc_eq_le)

text \<open>\<^verbatim>\<open>re.sub(r'[^\w\s]', ' ', text)\<close>.\<close>

definition sub_special :: "string \<Rightarrow> string" where
  "sub_special s = map (\<lambda>c. if \<not> is_word c \<and> \<not> is_space c then CHR '' '' else c) s"

text \<open>\<^verbatim>\<open>re.sub(r'\d+', '', text)\<close>.\<close>

definition sub_digits :: "string \<Rightarrow> string" where
  "sub_digits s = filter (\<lambda>c. \<not> is_digit c) s"

text \<open>\<^verbatim>\<open>text.strip()\<close>.\<close>

definition py_strip :: "string \<Rightarrow> string" where
  "py_strip s = rev (dropWhile is_space (rev (dropWhile is_space s)))"

text \<open>\<^verbatim>\<open>text.split()\<close>: the maximal blocks free of white space.\<close>

fun split_acc :: "string \<Rightarrow> string \<Rightarrow> string list" where
  "split_acc w [] = (if w = [] then [] else [w])"
| "split_acc w (c # cs) =
     (if is_space c then (if w = [] then split_acc [] cs else w # split_acc [] cs)
      else split_acc (w @ [c]) cs)"

definition py_split :: "string \<Rightarrow> string list" where
  "py_split s = split_acc [] s"

text \<open>\<^verbatim>\<open>" ".join(ws)\<close>.\<close>

fun join_space :: "string list \<Rightarrow> string" where
  "join_space [] = []"
| "join_space [w] = w"
| "join_space (w # ws) = w @ CHR '' '' # join_space ws"

definition remove_numbers_and_special_chars :: "string \<Rightarrow> string" where
  "remove_numbers_and_special_chars text0 =
     (let text1 = sub_digits text0;
          text2 = sub_special text1
      in py_strip (sub_ws_runs text2))"

definition clean_text_for_search :: "string \<Rightarrow> string" where
  "clean_text_for_search text0 =
     (let text1 = py_lower text0;
          text2 = sub_ws_runs text1;
          text3 = sub_special text2
      in py_strip (sub_ws_runs text3))"

subsection \<open>Heading locator\<close>

text \<open>
  The window of \<^verbatim>\<open>search_heading_in_pdf_content\<close>:
  \<^verbatim>\<open>[p for p in sorted(d.keys()) if p >= start_page]\<close> with
  \<^verbatim>\<open>start_page = last_found_page + 1 if last_found_page > 0 else 1\<close>.
\<close>

definition pages_to_search :: "corpus \<Rightarrow> int \<Rightarrow> int list" where
  "pages_to_search d last_found_page =
     (let start_page = (if last_found_page > 0 then last_found_page + 1 else 1)
      in filter (\<lambda>p. p \<ge> start_page) (sort (dict_keys d)))"

text \<open>Strategy 1, the loop that fills \<^verbatim>\<open>exact_matches\<close>.\<close>

fun exact_matches :: "string \<Rightarrow> corpus \<Rightarrow> int list \<Rightarrow> py_error + int list" where
  "exact_matches clean_heading_no_numbers d [] = Inr []"
| "exact_matches clean_heading_no_numbers d (page_num # rest) =
     (case dict_get d page_num of
        Inl e \<Rightarrow> Inl e
      | Inr content \<Rightarrow>
          (let clean_content = clean_text_for_search content
           in case exact_matches clean_heading_no_numbers d rest of
                Inl e \<Rightarrow> Inl e
              | Inr ms \<Rightarrow>
                  Inr (if str_in clean_heading_no_numbers clean_content
                       then page_num # ms else ms)))"

text \<open>\<^verbatim>\<open>sum(1 for word in heading_words if word in clean_content)\<close>.\<close>

definition word_matches :: "string list \<Rightarrow> string \<Rightarrow> nat" where
  "word_matches heading_words clean_content =
     length (filter (\<lambda>word. str_in word clean_content) heading_words)"

text \<open>Strategy 2, the loop that fills \<^verbatim>\<open>partial_matches\<close> (before it is sorted).\<close>

fun partial_matches :: "string list \<Rightarrow> corpus \<Rightarrow> int list \<Rightarrow> py_error + (int \<times> rat) list" where
  "partial_matches heading_words d [] = Inr []"
| "partial_matches heading_words d (page_num # rest) =
     (case dict_get d page_num of
        Inl e \<Rightarrow> Inl e
      | Inr content \<Rightarrow>
          (let clean_content = clean_text_for_search content
           in case py_truediv (word_matches heading_words clean_content) (length heading_words) of
                Inl e \<Rightarrow> Inl e
              | Inr match_ratio \<Rightarrow>
                  (case partial_matches heading_words d rest of
                     Inl e \<Rightarrow> Inl e
                   | Inr ms \<Rightarrow>
                       Inr (if match_ratio \<ge> 7 / 10 then (page_num, match_ratio) # ms else ms))))"

text \<open>
  \<^verbatim>\<open>partial_matches.sort(key=lambda x: x[1], reverse=True)\<close>: a stable sort, so entries
  with equal ratio keep their order. \<open>sort_key\<close> is stable too, and sorting by the negated
  ratio puts the largest ratio first.
\<close>

definition sort_by_ratio_desc :: "(int \<times> rat) list \<Rightarrow> (int \<times> rat) list" where
  "sort_by_ratio_desc ms = sort_key (\<lambda>x. - snd x) ms"

text \<open>
  Strategy 3, the inner loop over \<^verbatim>\<open>range(len(heading_words) - 2)\<close>: some phrase
  \<^verbatim>\<open>" ".join(heading_words[i:i+3])\<close> occurs in the page.
\<close>

definition phrase_hit :: "string list \<Rightarrow> string \<Rightarrow> bool" where
  "phrase_hit heading_words clean_content =
     list_ex (\<lambda>i. str_in (join_space (take 3 (drop i heading_words))) clean_content)
       [0 ..< length heading_words - 2]"

fun sequence_matches :: "string list \<Rightarrow> corpus \<Rightarrow> int list \<Rightarrow> py_error + int list" where
  "sequence_matches heading_words d [] = Inr []"
| "sequence_matches heading_words d (page_num # rest) =
     (case dict_get d page_num of
        Inl e \<Rightarrow> Inl e
      | Inr content \<Rightarrow>
          (let clean_content = clean_text_for_search content
           in case sequence_matches heading_words d rest of
                Inl e \<Rightarrow> Inl e
              | Inr ms \<Rightarrow>
                  Inr (if phrase_hit heading_words clean_content then page_num # ms else ms)))"

text \<open>
  The selection that the source repeats after each strategy, for a list it has found
  non-empty: the only candidate, else the second one on the first search
  (\<^verbatim>\<open>last_found_page == 0\<close>), else the first one.
\<close>

definition select_match :: "'a list \<Rightarrow> int \<Rightarrow> py_error + 'a" where
  "select_match ms last_found_page =
     (if length ms = 1 then py_index ms 0
      else if last_found_page = 0 \<and> length ms > 1 then py_index ms 1
      else py_index ms 0)"

definition strategy2 :: "string list \<Rightarrow> corpus \<Rightarrow> int list \<Rightarrow> int \<Rightarrow> py_error + int option" where
  "strategy2 heading_words d pages last_found_page =
     (if length heading_words \<ge> 2 then
        (case partial_matches heading_words d pages of
           Inl e \<Rightarrow> Inl e
         | Inr ms \<Rightarrow>
             if ms \<noteq> [] then
               (case select_match (sort_by_ratio_desc ms) last_found_page of
                  Inl e \<Rightarrow> Inl e
                | Inr m \<Rightarrow> Inr (Some (fst m)))
             else Inr None)
      else Inr None)"

definition strategy3 :: "string list \<Rightarrow> corpus \<Rightarrow> int list \<Rightarrow> int \<Rightarrow> py_error + int option" where
  "strategy3 heading_words d pages last_found_page =
     (if length heading_words \<ge> 3 then
        (case sequence_matches heading_words d pages of
           Inl e \<Rightarrow> Inl e
         | Inr ms \<Rightarrow>
             if ms \<noteq> [] then
               (case select_match ms last_found_page of
                  Inl e \<Rightarrow> Inl e
                | Inr p \<Rightarrow> Inr (Some p))
             else Inr None)
      else Inr None)"

text \<open>The text that the three strategies look for, and its words.\<close>

definition clean_heading_no_numbers :: "string \<Rightarrow> string" where
  "clean_heading_no_numbers heading_text =
     remove_numbers_and_special_chars (clean_text_for_search heading_text)"

definition heading_words :: "string \<Rightarrow> string list" where
  "heading_words heading_text = py_split (clean_heading_no_numbers heading_text)"

text \<open>The result \<open>Inr None\<close> is Python's \<^verbatim>\<open>return None\<close>.\<close>

definition search_heading_in_pdf_content :: "string \<Rightarrow> corpus \<Rightarrow> int \<Rightarrow> py_error + int option" where
  "search_heading_in_pdf_content heading_text d last_found_page =
     (if d = [] then Inr None
      else
        (let pages = pages_to_search d last_found_page
         in case exact_matches (clean_heading_no_numbers heading_text) d pages of
              Inl e \<Rightarrow> Inl e
            | Inr ms \<Rightarrow>
                if ms \<noteq> [] then
                  (case select_match ms last_found_page of
                     Inl e \<Rightarrow> Inl e
                   | Inr p \<Rightarrow> Inr (Some p))
                else
                  (case strategy2 (heading_words heading_text) d pages last_found_page of
                     Inl e \<Rightarrow> Inl e
                   | Inr (Some p) \<Rightarrow> Inr (Some p)
                   | Inr None \<Rightarrow> strategy3 (heading_words heading_text) d pages last_found_page)))"

subsection \<open>Fallback estimator\<close>

datatype heading_level = H1 | H2 | H3 | H4 | H5 | H6

text \<open>
  An entry of the outline; the field \<open>heading\<close> is the key \<^verbatim>\<open>"text"\<close> of the source.
  The field \<open>page\<close> is optional because the estimator reads it
  with \<^verbatim>\<open>heading.get("page")\<close>, which yields \<^verbatim>\<open>None\<close> for a missing key.
\<close>

record outline_entry =
  level :: heading_level
  heading :: string
  page :: "int option"

text \<open>Python's truth value of \<^verbatim>\<open>heading.get("page")\<close>: neither \<^verbatim>\<open>None\<close> nor \<^verbatim>\<open>0\<close>.\<close>

definition truthy :: "int option \<Rightarrow> bool" where
  "truthy v = (case v of None \<Rightarrow> False | Some n \<Rightarrow> n \<noteq> 0)"

text \<open>\<^verbatim>\<open>max(d.keys()) if d else 6\<close>.\<close>

definition max_page_of :: "corpus \<Rightarrow> py_error + int" where
  "max_page_of d = (if d \<noteq> [] then py_max (dict_keys d) else Inr 6)"

definition estimate_page_from_surrounding_headings ::
  "string \<Rightarrow> outline_entry list \<Rightarrow> corpus \<Rightarrow> int \<Rightarrow> py_error + int" where
  "estimate_page_from_surrounding_headings heading_text existing_outline d last_found_page =
     (if existing_outline = [] then Inr 1
      else if last_found_page > 0 then
        (case max_page_of d of
           Inl e \<Rightarrow> Inl e
         | Inr max_page \<Rightarrow> Inr (min (last_found_page + 1) max_page))
      else
        (let last_outline_page =
               (case find (\<lambda>h. truthy (page h)) (rev existing_outline) of
                  None \<Rightarrow> None
                | Some h \<Rightarrow> page h)
         in if truthy last_outline_page then
              (case max_page_of d of
                 Inl e \<Rightarrow> Inl e
               | Inr max_page \<Rightarrow> Inr (min (the last_outline_page + 1) max_page))
            else Inr 1))"

subsection \<open>Outline builder\<close>

text \<open>
  A heading tag as the loop of \<^verbatim>\<open>extract_headings_from_html\<close> reads it: its level
  (\<^verbatim>\<open>heading.name.upper()\<close>) and its text content, which
  \<^verbatim>\<open>get_text(strip=True)\<close> strips. The parsing of the HTML, the extraction of the page
  texts and the title are done by other libraries; their results are the arguments here.
\<close>

record heading_tag =
  tag_level :: heading_level
  tag_text :: string

text \<open>The state of the loop: \<^verbatim>\<open>outline\<close> and \<^verbatim>\<open>last_found_page\<close>.\<close>

type_synonym builder_state = "outline_entry list \<times> int"

text \<open>One iteration of \<^verbatim>\<open>for heading in heading_tags\<close>.\<close>

definition process_heading :: "corpus \<Rightarrow> builder_state \<Rightarrow> heading_tag \<Rightarrow> py_error + builder_state" where
  "process_heading d st tag =
     (let outline = fst st;
          last_found_page = snd st;
          txt = py_strip (tag_text tag)
      in if txt \<noteq> [] \<and> length txt > 2 then
           (case search_heading_in_pdf_content txt d last_found_page of
              Inl e \<Rightarrow> Inl e
            | Inr found \<Rightarrow>
                (case (case found of
                         None \<Rightarrow> estimate_page_from_surrounding_headings txt outline d last_found_page
                       | Some p \<Rightarrow> Inr p) of
                   Inl e \<Rightarrow> Inl e
                 | Inr page_number \<Rightarrow>
                     Inr (outline @ [\<lparr>level = tag_level tag, heading = txt, page = Some page_number\<rparr>],
                          if page_number \<noteq> 0 \<and> page_number > last_found_page
                          then page_number else last_found_page)))
         else Inr st)"

fun headings_loop :: "corpus \<Rightarrow> builder_state \<Rightarrow> heading_tag list \<Rightarrow> py_error + builder_state" where
  "headings_loop d st [] = Inr st"
| "headings_loop d st (tag # rest) =
     (case process_heading d st tag of
        Inl e \<Rightarrow> Inl e
      | Inr st' \<Rightarrow> headings_loop d st' rest)"

text \<open>The outline that \<^verbatim>\<open>extract_headings_from_html\<close> returns.\<close>

definition extract_headings_from_html :: "corpus \<Rightarrow> heading_tag list \<Rightarrow> py_error + outline_entry list" where
  "extract_headings_from_html d heading_tags =
     (case headings_loop d ([], 0) heading_tags of
        Inl e \<Rightarrow> Inl e
      | Inr st \<Rightarrow> Inr (fst st))"

subsection \<open>Notions used to state the properties\<close>

text \<open>
  The normalised text of a page, as each strategy computes it
  (\<^verbatim>\<open>clean_text_for_search(pdf_content_by_page[page_num])\<close>), and the ratio of strategy 2.
\<close>

definition page_text :: "corpus \<Rightarrow> int \<Rightarrow> string" where
  "page_text d p = (case map_of d p of None \<Rightarrow> [] | Some content \<Rightarrow> clean_text_for_search content)"

definition match_ratio :: "string list \<Rightarrow> string \<Rightarrow> rat" where
  "match_ratio ws clean_content = of_nat (word_matches ws clean_content) / of_nat (length ws)"


section \<open>Auxiliary facts\<close>

subsection \<open>Primitives\<close>



lemma set_dict_keys: "set (dict_keys d) = fst ` set d"
  by (simp add: dict_keys_def)

lemma dict_get_key: "k \<in> fst ` set d \<Longrightarrow> \<exists>v. map_of d k = Some v \<and> dict_get d k = Inr v"
proof -
  assume "k \<in> fst ` set d"
  then have "map_of d k \<noteq> None" by (simp add: map_of_eq_None_iff)
  then show ?thesis by (auto simp: dict_get_def)
qed

lemma set_pages_to_search:
  "set (pages_to_search d l) = {p \<in> fst ` set d. p \<ge> (if l > 0 then l + 1 else 1)}"
  by (auto simp: pages_to_search_def set_dict_keys)

lemma pages_to_search_keys: "set (pages_to_search d l) \<subseteq> fst ` set d"
  by (auto simp: set_pages_to_search)

lemma sorted_pages_to_search: "sorted (pages_to_search d l)"
  by (simp add: pages_to_search_def sorted_wrt_filter)

lemma distinct_pages_to_search: "distinct (pages_to_search d l)"
  by (simp add: pages_to_search_def dict_keys_def)

lemma py_max_keys: "d \<noteq> [] \<Longrightarrow> py_max (dict_keys d) = Inr (Max (fst ` set d))"
proof -
  assume "d \<noteq> []"
  then have ne: "dict_keys d \<noteq> []" using set_dict_keys[of d] by (cases d) auto
  then obtain x xs where eq: "dict_keys d = x # xs" by (cases "dict_keys d") auto
  have "fold max xs x = Max (set (x # xs))" using Max.set_eq_fold[of x xs] by simp
  then show ?thesis using eq set_dict_keys[of d] by simp
qed

lemma select_match_mem: "ms \<noteq> [] \<Longrightarrow> \<exists>m. select_match ms l = Inr m \<and> m \<in> set ms"
  by (cases ms) (auto simp: select_match_def py_index_def)

lemma select_match_second: "2 \<le> length ms \<Longrightarrow> select_match ms 0 = Inr (ms ! 1)"
  by (auto simp: select_match_def py_index_def)

lemma select_match_single: "select_match [m] l = Inr m"
  by (auto simp: select_match_def py_index_def)

subsection \<open>The three strategies never raise\<close>

lemma exact_matches_eq:
  "set ps \<subseteq> fst ` set d \<Longrightarrow>
   exact_matches n d ps = Inr (filter (\<lambda>p. str_in n (page_text d p)) ps)"
proof (induction ps)
  case Nil
  then show ?case by simp
next
  case (Cons p ps)
  then have "p \<in> fst ` set d" by simp
  then obtain v where "map_of d p = Some v" "dict_get d p = Inr v"
    using dict_get_key by blast
  with Cons show ?case by (simp add: page_text_def)
qed

lemma partial_matches_eq:
  "ws \<noteq> [] \<Longrightarrow> set ps \<subseteq> fst ` set d \<Longrightarrow>
   partial_matches ws d ps =
     Inr (map (\<lambda>p. (p, match_ratio ws (page_text d p)))
           (filter (\<lambda>p. match_ratio ws (page_text d p) \<ge> 7 / 10) ps))"
proof (induction ps)
  case Nil
  then show ?case by simp
next
  case (Cons p ps)
  then have "p \<in> fst ` set d" by simp
  then obtain v where "map_of d p = Some v" "dict_get d p = Inr v"
    using dict_get_key by blast
  with Cons show ?case by (simp add: page_text_def match_ratio_def py_truediv_def)
qed

lemma sequence_matches_eq:
  "set ps \<subseteq> fst ` set d \<Longrightarrow>
   sequence_matches ws d ps = Inr (filter (\<lambda>p. phrase_hit ws (page_text d p)) ps)"
proof (induction ps)
  case Nil
  then show ?case by simp
next
  case (Cons p ps)
  then have "p \<in> fst ` set d" by simp
  then obtain v where "map_of d p = Some v" "dict_get d p = Inr v"
    using dict_get_key by blast
  with Cons show ?case by (simp add: page_text_def)
qed


lemma set_sort_by_ratio_desc: "set (sort_by_ratio_desc ms) = set ms"
  by (simp add: sort_by_ratio_desc_def)

lemma length_sort_by_ratio_desc: "length (sort_by_ratio_desc ms) = length ms"
  by (simp add: sort_by_ratio_desc_def)

lemma strategy2_cases:
  assumes "set ps \<subseteq> fst ` set d"
  shows "strategy2 ws d ps l = Inr None \<or>
         (\<exists>p. strategy2 ws d ps l = Inr (Some p) \<and> p \<in> set ps)"
proof (cases "2 \<le> length ws")
  case False
  then show ?thesis by (simp add: strategy2_def)
next
  case True
  then have ne: "ws \<noteq> []" by auto
  let ?ms = "map (\<lambda>p. (p, match_ratio ws (page_text d p)))
           (filter (\<lambda>p. match_ratio ws (page_text d p) \<ge> 7 / 10) ps)"
  have pm: "partial_matches ws d ps = Inr ?ms"
    using partial_matches_eq[OF ne assms] .
  show ?thesis
  proof (cases "?ms = []")
    case True
    with pm \<open>2 \<le> length ws\<close> show ?thesis by (simp add: strategy2_def)
  next
    case False
    then have "sort_by_ratio_desc ?ms \<noteq> []"
      using length_sort_by_ratio_desc[of ?ms] by auto
    then obtain m where m: "select_match (sort_by_ratio_desc ?ms) l = Inr m"
      "m \<in> set (sort_by_ratio_desc ?ms)"
      using select_match_mem by blast
    then have "fst m \<in> set ps" by (auto simp: set_sort_by_ratio_desc)
    moreover have "strategy2 ws d ps l = Inr (Some (fst m))"
      using pm False m(1) True by (simp add: strategy2_def)
    ultimately show ?thesis by blast
  qed
qed

lemma strategy3_cases:
  assumes "set ps \<subseteq> fst ` set d"
  shows "strategy3 ws d ps l = Inr None \<or>
         (\<exists>p. strategy3 ws d ps l = Inr (Some p) \<and> p \<in> set ps)"
proof (cases "3 \<le> length ws")
  case False
  then show ?thesis by (simp add: strategy3_def)
next
  case True
  let ?ms = "filter (\<lambda>p. phrase_hit ws (page_text d p)) ps"
  have sm: "sequence_matches ws d ps = Inr ?ms"
    using sequence_matches_eq[OF assms] .
  show ?thesis
  proof (cases "?ms = []")
    case True
    with sm \<open>3 \<le> length ws\<close> show ?thesis by (simp add: strategy3_def)
  next
    case False
    then obtain m where m: "select_match ?ms l = Inr m" "m \<in> set ?ms"
      using select_match_mem by blast
    then have "m \<in> set ps" by auto
    moreover have "strategy3 ws d ps l = Inr (Some m)"
      using sm False m(1) True by (simp add: strategy3_def)
    ultimately show ?thesis by blast
  qed
qed

lemma search_exact:
  assumes "filter (\<lambda>p. str_in (clean_heading_no_numbers h) (page_text d p)) (pages_to_search d l) = ms"
    and "ms \<noteq> []" and "select_match ms l = Inr m"
  shows "search_heading_in_pdf_content h d l = Inr (Some m)"
proof -
  have sub: "set (pages_to_search d l) \<subseteq> fst ` set d" by (rule pages_to_search_keys)
  have "pages_to_search d l \<noteq> []" using assms(1,2) by auto
  then have "d \<noteq> []" using sub by auto
  moreover have "exact_matches (clean_heading_no_numbers h) d (pages_to_search d l) = Inr ms"
    using exact_matches_eq[OF sub] assms(1) by simp
  ultimately show ?thesis
    using assms(2,3) by (simp add: search_heading_in_pdf_content_def Let_def)
qed

lemma search_no_exact:
  assumes "d \<noteq> []"
    and "filter (\<lambda>p. str_in (clean_heading_no_numbers h) (page_text d p)) (pages_to_search d l) = []"
  shows "search_heading_in_pdf_content h d l =
        (case strategy2 (heading_words h) d (pages_to_search d l) l of
           Inl e \<Rightarrow> Inl e
         | Inr (Some p) \<Rightarrow> Inr (Some p)
         | Inr None \<Rightarrow> strategy3 (heading_words h) d (pages_to_search d l) l)"
proof -
  have sub: "set (pages_to_search d l) \<subseteq> fst ` set d" by (rule pages_to_search_keys)
  have "exact_matches (clean_heading_no_numbers h) d (pages_to_search d l) = Inr []"
    using exact_matches_eq[OF sub] assms(2) by simp
  then show ?thesis
    using assms(1) by (simp add: search_heading_in_pdf_content_def Let_def)
qed

lemma search_cases:
  "search_heading_in_pdf_content h d l = Inr None \<or>
   (\<exists>p. search_heading_in_pdf_content h d l = Inr (Some p) \<and> p \<in> set (pages_to_search d l))"
proof (cases "d = []")
  case True
  then show ?thesis by (simp add: search_heading_in_pdf_content_def)
next
  case False
  let ?ps = "pages_to_search d l"
  let ?ms = "filter (\<lambda>p. str_in (clean_heading_no_numbers h) (page_text d p)) ?ps"
  have sub: "set ?ps \<subseteq> fst ` set d" by (rule pages_to_search_keys)
  show ?thesis
  proof (cases "?ms = []")
    case False
    then obtain m where m: "select_match ?ms l = Inr m" "m \<in> set ?ms"
      using select_match_mem by blast
    then have "m \<in> set ?ps" by auto
    moreover have "search_heading_in_pdf_content h d l = Inr (Some m)"
      using search_exact[OF refl False m(1)] .
    ultimately show ?thesis by blast
  next
    case True
    note eq = search_no_exact[OF \<open>d \<noteq> []\<close> True]
    from strategy2_cases[OF sub, of "heading_words h" l] show ?thesis
    proof
      assume s2: "strategy2 (heading_words h) d ?ps l = Inr None"
      with eq have "search_heading_in_pdf_content h d l = strategy3 (heading_words h) d ?ps l"
        by simp
      with strategy3_cases[OF sub, of "heading_words h" l] show ?thesis by auto
    next
      assume "\<exists>p. strategy2 (heading_words h) d ?ps l = Inr (Some p) \<and> p \<in> set ?ps"
      with eq show ?thesis by auto
    qed
  qed
qed

lemma estimate_total:
  "\<exists>n. estimate_page_from_surrounding_headings h outline d l = Inr n"
proof -
  have "\<exists>m. max_page_of d = Inr m"
    by (cases "d = []") (simp_all add: max_page_of_def py_max_keys)
  then obtain m where "max_page_of d = Inr m" by blast
  then show ?thesis
    by (simp add: estimate_page_from_surrounding_headings_def Let_def)
qed

lemma max_page_of_eq: "max_page_of d = Inr (if d \<noteq> [] then Max (fst ` set d) else 6)"
  by (simp add: max_page_of_def py_max_keys)

subsection \<open>The loop of the outline builder\<close>

lemma search_total: "\<exists>r. search_heading_in_pdf_content h d l = Inr r"
  using search_cases[of h d l] by auto

lemma process_heading_skip:
  "length (py_strip (tag_text t)) \<le> 2 \<Longrightarrow> process_heading d st t = Inr st"
  by (simp add: process_heading_def Let_def)

lemma process_heading_found:
  assumes "2 < length (py_strip (tag_text t))"
    and "search_heading_in_pdf_content (py_strip (tag_text t)) d (snd st) = Inr (Some p)"
  shows "process_heading d st t =
     Inr (fst st @ [\<lparr>level = tag_level t, heading = py_strip (tag_text t), page = Some p\<rparr>],
          if p \<noteq> 0 \<and> p > snd st then p else snd st)"
  using assms by (auto simp: process_heading_def Let_def)

lemma process_heading_fallback:
  assumes "2 < length (py_strip (tag_text t))"
    and "search_heading_in_pdf_content (py_strip (tag_text t)) d (snd st) = Inr None"
    and "estimate_page_from_surrounding_headings (py_strip (tag_text t)) (fst st) d (snd st) = Inr q"
  shows "process_heading d st t =
     Inr (fst st @ [\<lparr>level = tag_level t, heading = py_strip (tag_text t), page = Some q\<rparr>],
          if q \<noteq> 0 \<and> q > snd st then q else snd st)"
  using assms by (auto simp: process_heading_def Let_def)

lemma process_heading_kept:
  assumes "2 < length (py_strip (tag_text t))"
  shows "\<exists>q l'. process_heading d st t =
     Inr (fst st @ [\<lparr>level = tag_level t, heading = py_strip (tag_text t), page = Some q\<rparr>], l')"
proof -
  obtain r where r: "search_heading_in_pdf_content (py_strip (tag_text t)) d (snd st) = Inr r"
    using search_total by blast
  show ?thesis
  proof (cases r)
    case None
    obtain q where "estimate_page_from_surrounding_headings (py_strip (tag_text t)) (fst st) d (snd st) = Inr q"
      using estimate_total by blast
    with process_heading_fallback[OF assms] r None show ?thesis by blast
  next
    case (Some p)
    with process_heading_found[OF assms] r show ?thesis by blast
  qed
qed

lemma process_heading_total: "\<exists>st'. process_heading d st t = Inr st'"
proof (cases "2 < length (py_strip (tag_text t))")
  case True
  then show ?thesis using process_heading_kept[of t d st] by auto
next
  case False
  then show ?thesis by (simp add: process_heading_skip)
qed

lemma headings_loop_append:
  "headings_loop d st (xs @ ys) =
     (case headings_loop d st xs of Inl e \<Rightarrow> Inl e | Inr st' \<Rightarrow> headings_loop d st' ys)"
  by (induction xs arbitrary: st) (auto split: sum.splits)

lemma headings_loop_total: "\<exists>st'. headings_loop d st tags = Inr st'"
proof (induction tags arbitrary: st)
  case Nil
  show ?case by simp
next
  case (Cons t tags)
  obtain st1 where "process_heading d st t = Inr st1" using process_heading_total by blast
  with Cons[of st1] show ?case by simp
qed

lemma headings_loop_skip:
  "\<forall>t \<in> set tags. length (py_strip (tag_text t)) \<le> 2 \<Longrightarrow> headings_loop d st tags = Inr st"
  by (induction tags) (simp_all add: process_heading_skip)


section \<open>Properties\<close>

subsection \<open>Search window and shape of the outline\<close>

text \<open>
  C6. With a cursor \<open>last_found_page > 0\<close>, a page returned by the locator, whichever
  strategy found it, is at least \<open>last_found_page + 1\<close>: an exact match on an earlier
  page is never returned.
\<close>

theorem C6_forward_window:
  assumes "0 < l" and "search_heading_in_pdf_content h d l = Inr (Some p)"
  shows "l + 1 \<le> p"
proof -
  from search_cases[of h d l] assms(2) have "p \<in> set (pages_to_search d l)" by auto
  with assms(1) show ?thesis by (simp add: set_pages_to_search)
qed

theorem C6_witness:
  "search_heading_in_pdf_content ''Results''
     [(2, ''Results''), (6, ''Appendix''), (7, ''Results in detail'')] 5 = Inr (Some 7) \<and> (5::int) + 1 \<le> 7"
proof -
  have h1: "(0::int) < 5" by simp
  have h2: "search_heading_in_pdf_content ''Results''
     [(2, ''Results''), (6, ''Appendix''), (7, ''Results in detail'')] 5 = Inr (Some 7)"
    by code_simp
  show ?thesis using C6_forward_window[OF h1 h2] h2 by simp
qed



text \<open>
  C10. A heading tag whose stripped text is empty or has at most two characters adds no
  record and leaves the cursor as it was: the iteration returns the state unchanged, the
  pass gives the same result as on the list without that tag, and the outline is shorter
  than the list of tags.
\<close>

theorem C10_short_heading_skipped:
  assumes "length (py_strip (tag_text t)) \<le> 2"
  shows "process_heading d st t = Inr st \<and>
         headings_loop d st (pre @ t # post) = headings_loop d st (pre @ post) \<and>
         (\<exists>out. extract_headings_from_html d (pre @ t # post) = Inr out \<and>
                 length out < length (pre @ t # post))"
proof -
  have skip: "process_heading d st' t = Inr st'" for st'
    using assms by (rule process_heading_skip)
  have same: "headings_loop d st' (pre @ t # post) = headings_loop d st' (pre @ post)" for st'
    by (simp add: headings_loop_append skip split: sum.splits)
  have len: "\<exists>ext l'. headings_loop d st' tags = Inr (fst st' @ ext, l') \<and> length ext \<le> length tags"
    for st' tags
  proof (induction tags arbitrary: st')
    case Nil
    show ?case by (cases st') simp
  next
    case (Cons a tags)
    show ?case
    proof (cases "2 < length (py_strip (tag_text a))")
      case True
      then obtain q l1 where st1: "process_heading d st' a =
        Inr (fst st' @ [\<lparr>level = tag_level a, heading = py_strip (tag_text a), page = Some q\<rparr>], l1)"
        using process_heading_kept by blast
      let ?e = "\<lparr>level = tag_level a, heading = py_strip (tag_text a), page = Some q\<rparr>"
      obtain ext l' where "headings_loop d (fst st' @ [?e], l1) tags = Inr ((fst st' @ [?e]) @ ext, l')"
        "length ext \<le> length tags"
        using Cons[of "(fst st' @ [?e], l1)"] by auto
      then have "headings_loop d st' (a # tags) = Inr (fst st' @ (?e # ext), l')"
        "length (?e # ext) \<le> length (a # tags)"
        using st1 by simp_all
      then show ?thesis by blast
    next
      case False
      then have "process_heading d st' a = Inr st'" by (simp add: process_heading_skip)
      moreover obtain ext l' where "headings_loop d st' tags = Inr (fst st' @ ext, l')"
        "length ext \<le> length tags"
        using Cons[of st'] by auto
      ultimately have "headings_loop d st' (a # tags) = Inr (fst st' @ ext, l')"
        "length ext \<le> length (a # tags)" by simp_all
      then show ?thesis by blast
    qed
  qed
  obtain ext l' where ext: "headings_loop d ([], 0) (pre @ post) = Inr (fst ([] :: outline_entry list, 0 :: int) @ ext, l')"
    "length ext \<le> length (pre @ post)"
    using len[of "([], 0)" "pre @ post"] by blast
  then have "extract_headings_from_html d (pre @ t # post) = Inr ext"
    using same[of "([], 0)"] by (simp add: extract_headings_from_html_def)
  moreover have "length ext < length (pre @ t # post)" using ext(2) by simp
  ultimately show ?thesis using skip same by blast
qed

theorem C10_witness:
  "process_heading [(1, ''Scope of work'')] ([], 0) \<lparr>tag_level = H3, tag_text = '' 1. ''\<rparr> = Inr ([], 0) \<and>
   headings_loop [(1, ''Scope of work'')] ([], 0)
      ([\<lparr>tag_level = H1, tag_text = ''Scope''\<rparr>] @ \<lparr>tag_level = H3, tag_text = '' 1. ''\<rparr> # []) =
   headings_loop [(1, ''Scope of work'')] ([], 0) ([\<lparr>tag_level = H1, tag_text = ''Scope''\<rparr>] @ []) \<and>
   (\<exists>out. extract_headings_from_html [(1, ''Scope of work'')]
      ([\<lparr>tag_level = H1, tag_text = ''Scope''\<rparr>] @ \<lparr>tag_level = H3, tag_text = '' 1. ''\<rparr> # []) = Inr out \<and>
      length out < length ([\<lparr>tag_level = H1, tag_text = ''Scope''\<rparr>] @ \<lparr>tag_level = H3, tag_text = '' 1. ''\<rparr> # []))"
proof -
  have h: "length (py_strip (tag_text \<lparr>tag_level = H3, tag_text = '' 1. ''\<rparr>)) \<le> 2"
    by code_simp
  show ?thesis
    by (rule C10_short_heading_skipped[OF h])
qed

subsection \<open>Empty dictionary of page texts\<close>

lemma search_empty_corpus: "search_heading_in_pdf_content h [] l = Inr None"
  by (simp add: search_heading_in_pdf_content_def)

lemma estimate_empty_corpus:
  "estimate_page_from_surrounding_headings h outline [] (min (int (length outline)) 6) =
     Inr (min (int (length outline) + 1) 6)"
proof (cases "outline = []")
  case True
  then show ?thesis by (simp add: estimate_page_from_surrounding_headings_def)
next
  case False
  then have "0 < min (int (length outline)) 6" by (cases outline) auto
  then show ?thesis
    using False by (simp add: estimate_page_from_surrounding_headings_def max_page_of_eq min_def)
qed

lemma headings_loop_empty_corpus:
  "\<exists>ext. headings_loop [] (outline, min (int (length outline)) 6) tags =
            Inr (outline @ ext, min (int (length (outline @ ext))) 6) \<and>
          map page ext =
            map (\<lambda>k. Some (min (int k + 1) 6)) [length outline ..< length outline + length ext]"
proof (induction tags arbitrary: outline)
  case Nil
  have "headings_loop [] (outline, min (int (length outline)) 6) [] =
          Inr (outline @ [], min (int (length (outline @ []))) 6) \<and>
        map page [] = map (\<lambda>k. Some (min (int k + 1) 6)) [length outline ..< length outline + length ([] :: outline_entry list)]"
    by simp
  then show ?case by blast
next
  case (Cons t tags)
  let ?st = "(outline, min (int (length outline)) 6)"
  show ?case
  proof (cases "2 < length (py_strip (tag_text t))")
    case False
    then have "process_heading [] ?st t = Inr ?st" by (simp add: process_heading_skip)
    then have "headings_loop [] ?st (t # tags) = headings_loop [] ?st tags" by simp
    with Cons[of outline] show ?thesis by simp
  next
    case True
    let ?q = "min (int (length outline) + 1) 6"
    let ?e = "\<lparr>level = tag_level t, heading = py_strip (tag_text t), page = Some ?q\<rparr>"
    have ph: "process_heading [] ?st t =
       Inr (fst ?st @ [?e], if ?q \<noteq> 0 \<and> ?q > snd ?st then ?q else snd ?st)"
      by (rule process_heading_fallback[OF True])
         (simp_all add: search_empty_corpus estimate_empty_corpus)
    have cur: "(if ?q \<noteq> 0 \<and> ?q > snd ?st then ?q else snd ?st)
         = min (int (length (outline @ [?e]))) 6"
      by (auto simp: min_def)
    have step: "process_heading [] ?st t = Inr (outline @ [?e], min (int (length (outline @ [?e]))) 6)"
      using ph[unfolded cur] by simp
    obtain ext where ext:
      "headings_loop [] (outline @ [?e], min (int (length (outline @ [?e]))) 6) tags =
            Inr ((outline @ [?e]) @ ext, min (int (length ((outline @ [?e]) @ ext))) 6)"
      "map page ext =
            map (\<lambda>k. Some (min (int k + 1) 6)) [length (outline @ [?e]) ..< length (outline @ [?e]) + length ext]"
      using Cons[of "outline @ [?e]"] by blast
    have "headings_loop [] ?st (t # tags) =
        Inr (outline @ (?e # ext), min (int (length (outline @ (?e # ext)))) 6)"
      using step ext(1) by simp
    moreover have "map page (?e # ext) =
        map (\<lambda>k. Some (min (int k + 1) 6)) [length outline ..< length outline + length (?e # ext)]"
      using ext(2) by (simp del: upt_Suc add: upt_conv_Cons)
    ultimately show ?thesis by blast
  qed
qed

text \<open>
  C1 (as amended). With an empty dictionary of page texts the locator returns
  \<^verbatim>\<open>None\<close> for every heading and every cursor, and the outline builder gives the
  \<open>k\<close>-th record (counting from 1) the page \<open>min k 6\<close>: the first record has page 1,
  the following ones count up to the default \<^verbatim>\<open>max_page\<close> 6 of the estimator.
\<close>

theorem C1_empty_corpus_pages:
  "search_heading_in_pdf_content h [] l = Inr None \<and>
   (\<exists>out. extract_headings_from_html [] tags = Inr out \<and>
          map page out = map (\<lambda>k. Some (min (int k + 1) 6)) [0 ..< length out])"
proof -
  obtain ext where ext: "headings_loop [] ([], min (int (length ([] :: outline_entry list))) 6) tags =
            Inr ([] @ ext, min (int (length ([] @ ext))) 6)"
     "map page ext = map (\<lambda>k. Some (min (int k + 1) 6))
         [length ([] :: outline_entry list) ..< length ([] :: outline_entry list) + length ext]"
    using headings_loop_empty_corpus[of "[]" tags] by blast
  then have "extract_headings_from_html [] tags = Inr ext"
    by (simp add: extract_headings_from_html_def)
  moreover have "map page ext = map (\<lambda>k. Some (min (int k + 1) 6)) [0 ..< length ext]"
    using ext(2) by simp
  ultimately show ?thesis using search_empty_corpus by blast
qed

text \<open>
  The claim as written (every record carries page 1) fails on two headings: the second
  record carries page 2.
\<close>

theorem C1_counterexample:
  "extract_headings_from_html []
     [\<lparr>tag_level = H1, tag_text = ''Introduction''\<rparr>, \<lparr>tag_level = H2, tag_text = ''Background''\<rparr>] =
   Inr [\<lparr>level = H1, heading = ''Introduction'', page = Some 1\<rparr>,
        \<lparr>level = H2, heading = ''Background'', page = Some 2\<rparr>]"
  by code_simp

subsection \<open>The estimator as the builder calls it\<close>

text \<open>
  The three cases of the estimator as a function of its arguments. The first guard,
  \<^verbatim>\<open>if not existing_outline: return 1\<close>, decides for an empty outline whatever the
  cursor is.
\<close>

lemma estimate_page_cases:
  "(outline \<noteq> [] \<and> 0 < l \<and> d \<noteq> [] \<longrightarrow>
      estimate_page_from_surrounding_headings h outline d l = Inr (min (l + 1) (Max (fst ` set d)))) \<and>
   (outline = [] \<longrightarrow> estimate_page_from_surrounding_headings h outline d l = Inr 1) \<and>
   (l = 0 \<and> (\<forall>e \<in> set outline. \<not> truthy (page e)) \<longrightarrow>
      estimate_page_from_surrounding_headings h outline d l = Inr 1)"
proof (intro conjI impI)
  assume "outline \<noteq> [] \<and> 0 < l \<and> d \<noteq> []"
  then show "estimate_page_from_surrounding_headings h outline d l = Inr (min (l + 1) (Max (fst ` set d)))"
    by (simp add: estimate_page_from_surrounding_headings_def max_page_of_eq)
next
  assume "outline = []"
  then show "estimate_page_from_surrounding_headings h outline d l = Inr 1"
    by (simp add: estimate_page_from_surrounding_headings_def)
next
  assume a: "l = 0 \<and> (\<forall>e \<in> set outline. \<not> truthy (page e))"
  then have "find (\<lambda>h. truthy (page h)) (rev outline) = None"
    by (simp add: find_None_iff)
  then show "estimate_page_from_surrounding_headings h outline d l = Inr 1"
    using a by (simp add: estimate_page_from_surrounding_headings_def truthy_def)
qed

text \<open>
  The builder calls the estimator with its own state. The cursor leaves 0 only in an
  iteration that also appends a record, so a positive cursor comes with a non-empty
  outline.
\<close>

lemma process_heading_cursor:
  assumes "process_heading d st t = Inr st'" and "0 < snd st \<longrightarrow> fst st \<noteq> []"
  shows "0 < snd st' \<longrightarrow> fst st' \<noteq> []"
proof (cases "2 < length (py_strip (tag_text t))")
  case True
  then obtain q l' where "process_heading d st t =
     Inr (fst st @ [\<lparr>level = tag_level t, heading = py_strip (tag_text t), page = Some q\<rparr>], l')"
    using process_heading_kept by blast
  with assms(1) show ?thesis by auto
next
  case False
  then have "process_heading d st t = Inr st" by (simp add: process_heading_skip)
  with assms show ?thesis by simp
qed

lemma headings_loop_cursor:
  "headings_loop d st tags = Inr st' \<Longrightarrow> 0 < snd st \<longrightarrow> fst st \<noteq> [] \<Longrightarrow>
   0 < snd st' \<longrightarrow> fst st' \<noteq> []"
proof (induction tags arbitrary: st)
  case Nil
  then show ?case by simp
next
  case (Cons t tags)
  obtain st1 where st1: "process_heading d st t = Inr st1"
    using process_heading_total by blast
  then have "0 < snd st1 \<longrightarrow> fst st1 \<noteq> []"
    using Cons.prems(2) by (rule process_heading_cursor)
  moreover have "headings_loop d st1 tags = Inr st'" using Cons.prems(1) st1 by simp
  ultimately show ?case using Cons.IH by blast
qed

text \<open>
  C3. On every call that the outline builder makes (the state \<open>(outline, l)\<close> reached
  after any list \<open>pre\<close> of heading tags), with \<open>l > 0\<close> and a non-empty dictionary the
  estimator returns \<open>min (l + 1) max_page\<close>, \<open>max_page\<close> being the largest key,
  whatever the outline holds; and with cursor 0 and no processed heading whose page is
  known (neither \<^verbatim>\<open>None\<close> nor 0) it returns 1.
\<close>

theorem C3_estimator_calls:
  "(headings_loop d ([], 0) pre = Inr (outline, l) \<and> 0 < l \<and> d \<noteq> [] \<longrightarrow>
      estimate_page_from_surrounding_headings h outline d l = Inr (min (l + 1) (Max (fst ` set d)))) \<and>
   ((\<forall>e \<in> set outline'. \<not> truthy (page e)) \<longrightarrow>
      estimate_page_from_surrounding_headings h outline' d 0 = Inr 1)"
proof (intro conjI impI)
  assume a: "headings_loop d ([], 0) pre = Inr (outline, l) \<and> 0 < l \<and> d \<noteq> []"
  then have "0 < snd (outline, l) \<longrightarrow> fst (outline, l) \<noteq> []"
    using headings_loop_cursor[of d "([], 0)" pre "(outline, l)"] by simp
  with a have "outline \<noteq> []" by simp
  with a show "estimate_page_from_surrounding_headings h outline d l = Inr (min (l + 1) (Max (fst ` set d)))"
    using estimate_page_cases[of outline l d h] by blast
next
  assume "\<forall>e \<in> set outline'. \<not> truthy (page e)"
  then show "estimate_page_from_surrounding_headings h outline' d 0 = Inr 1"
    using estimate_page_cases[of outline' 0 d h] by blast
qed

theorem C3_witness:
  "estimate_page_from_surrounding_headings ''Budget''
     [\<lparr>level = H1, heading = ''Intro'', page = Some 1\<rparr>, \<lparr>level = H1, heading = ''Scope'', page = Some 3\<rparr>]
     [(1, ''Intro''), (2, ''Contents''), (3, ''Scope of work''), (4, ''Details''), (5, ''Annex'')] 3 = Inr 4 \<and>
   estimate_page_from_surrounding_headings ''Budget'' [\<lparr>level = H1, heading = ''Intro'', page = None\<rparr>]
     [(1, ''one''), (2, ''two'')] 0 = Inr 1"
proof -
  let ?d = "[(1, ''Intro''), (2, ''Contents''), (3, ''Scope of work''), (4, ''Details''), (5, ''Annex'')] :: corpus"
  have h1: "headings_loop ?d ([], 0)
      [\<lparr>tag_level = H1, tag_text = ''Intro''\<rparr>, \<lparr>tag_level = H1, tag_text = ''Scope''\<rparr>] =
      Inr ([\<lparr>level = H1, heading = ''Intro'', page = Some 1\<rparr>, \<lparr>level = H1, heading = ''Scope'', page = Some 3\<rparr>], 3)"
    by code_simp
  have h2: "(0 :: int) < 3 \<and> ?d \<noteq> []" by simp
  have m: "Max (fst ` set ?d) = 5" by simp
  have h3: "\<forall>e \<in> set [\<lparr>level = H1, heading = ''Intro'', page = None\<rparr>]. \<not> truthy (page e)"
    by (simp add: truthy_def)
  have c1: "estimate_page_from_surrounding_headings ''Budget''
     [\<lparr>level = H1, heading = ''Intro'', page = Some 1\<rparr>, \<lparr>level = H1, heading = ''Scope'', page = Some 3\<rparr>]
     ?d 3 = Inr (min (3 + 1) (Max (fst ` set ?d)))"
    using C3_estimator_calls[where d = ?d and l = 3 and h = "''Budget''"
        and pre = "[\<lparr>tag_level = H1, tag_text = ''Intro''\<rparr>, \<lparr>tag_level = H1, tag_text = ''Scope''\<rparr>]"] h1 h2
    by blast
  have c2: "estimate_page_from_surrounding_headings ''Budget'' [\<lparr>level = H1, heading = ''Intro'', page = None\<rparr>]
     [(1, ''one''), (2, ''two'')] 0 = Inr 1"
    using C3_estimator_calls[where outline' = "[\<lparr>level = H1, heading = ''Intro'', page = None\<rparr>]"
        and d = "[(1, ''one''), (2, ''two'')]" and h = "''Budget''"] h3
    by blast
  from c1 c2 m show ?thesis by simp
qed

subsection \<open>Strategy 1\<close>

lemma page_text_str_in:
  "p \<in> fst ` set d \<Longrightarrow>
   str_in n (page_text d p) \<longleftrightarrow>
     (\<exists>content. map_of d p = Some content \<and> str_in n (clean_text_for_search content))"
  using dict_get_key[of p d] by (auto simp: page_text_def)

lemma filter_single:
  "distinct ps \<Longrightarrow> p \<in> set ps \<Longrightarrow> P p \<Longrightarrow> \<forall>q \<in> set ps. q \<noteq> p \<longrightarrow> \<not> P q \<Longrightarrow>
   filter P ps = [p]"
proof (induction ps)
  case Nil
  then show ?case by simp
next
  case (Cons a ps)
  show ?case
  proof (cases "a = p")
    case True
    with Cons.prems have "\<forall>q \<in> set ps. \<not> P q" by auto
    then have "filter P ps = []" by (simp add: filter_empty_conv)
    with True Cons.prems(3) show ?thesis by simp
  next
    case False
    with Cons.prems have "\<not> P a" "p \<in> set ps" "distinct ps" "\<forall>q \<in> set ps. q \<noteq> p \<longrightarrow> \<not> P q"
      by auto
    with Cons.IH Cons.prems(3) show ?thesis by simp
  qed
qed

text \<open>
  C2 (as amended). Strategy 1 never raises, and it collects a page of the search window
  if and only if the strict-normalised heading (lower-cased, digits removed, punctuation
  replaced by blanks, white space collapsed and trimmed) is a substring of the normalised
  page text, where the page text is normalised by \<^verbatim>\<open>clean_text_for_search\<close> only: its
  digits are kept.
\<close>

theorem C2_exact_candidates:
  "\<exists>ms. exact_matches (remove_numbers_and_special_chars (clean_text_for_search h)) d
            (pages_to_search d l) = Inr ms \<and>
        (\<forall>p. p \<in> set ms \<longleftrightarrow>
             (p \<in> set (pages_to_search d l) \<and>
              (\<exists>content. map_of d p = Some content \<and>
                 str_in (remove_numbers_and_special_chars (clean_text_for_search h))
                        (clean_text_for_search content))))"
proof -
  let ?n = "remove_numbers_and_special_chars (clean_text_for_search h)"
  let ?ps = "pages_to_search d l"
  have sub: "set ?ps \<subseteq> fst ` set d" by (rule pages_to_search_keys)
  have em: "exact_matches ?n d ?ps = Inr (filter (\<lambda>p. str_in ?n (page_text d p)) ?ps)"
    by (rule exact_matches_eq[OF sub])
  have "p \<in> set (filter (\<lambda>p. str_in ?n (page_text d p)) ?ps) \<longleftrightarrow>
          (p \<in> set ?ps \<and>
           (\<exists>content. map_of d p = Some content \<and> str_in ?n (clean_text_for_search content)))" for p
    using sub page_text_str_in[of p d ?n] by auto
  with em show ?thesis by blast
qed

text \<open>
  The claim as written normalises the page text strictly as well. On a page that shows
  the heading "Chapter 3 Overview" verbatim, the strict-normalised heading
  \<open>''chapter overview''\<close> is a substring of the strict-normalised page text, yet
  strategy 1 collects nothing, because it looks in \<open>''chapter 3 overview''\<close>.
\<close>

theorem C2_counterexample:
  "1 \<in> set (pages_to_search [(1, ''Chapter 3 Overview'')] 0) \<and>
   str_in (remove_numbers_and_special_chars (clean_text_for_search ''Chapter 3 Overview''))
          (remove_numbers_and_special_chars (clean_text_for_search ''Chapter 3 Overview'')) \<and>
   exact_matches (remove_numbers_and_special_chars (clean_text_for_search ''Chapter 3 Overview''))
      [(1, ''Chapter 3 Overview'')] (pages_to_search [(1, ''Chapter 3 Overview'')] 0) = Inr []"
  by code_simp

theorem C2_witness:
  "\<exists>ms. exact_matches (remove_numbers_and_special_chars (clean_text_for_search ''3. Overview''))
            [(1, ''Contents: 3. Overview''), (2, ''Scope''), (3, ''3 Overview of the work'')]
            (pages_to_search [(1, ''Contents: 3. Overview''), (2, ''Scope''), (3, ''3 Overview of the work'')] 0) = Inr ms \<and>
        (\<forall>p. p \<in> set ms \<longleftrightarrow>
             (p \<in> set (pages_to_search [(1, ''Contents: 3. Overview''), (2, ''Scope''), (3, ''3 Overview of the work'')] 0) \<and>
              (\<exists>content. map_of [(1, ''Contents: 3. Overview''), (2, ''Scope''), (3, ''3 Overview of the work'')] p = Some content \<and>
                 str_in (remove_numbers_and_special_chars (clean_text_for_search ''3. Overview''))
                        (clean_text_for_search content))))"
  by (rule C2_exact_candidates)

text \<open>
  C4 (as amended). When the strict-normalised heading (digits removed) is a substring of
  the normalised page text (digits kept) on exactly one page of the search window, the
  locator returns that page, whatever the other pages would give under the word-overlap
  or the phrase strategy.
\<close>

theorem C4_exact_match_priority:
  assumes "p \<in> set (pages_to_search d l)"
    and "str_in (clean_heading_no_numbers h) (page_text d p)"
    and "\<forall>q \<in> set (pages_to_search d l). q \<noteq> p \<longrightarrow> \<not> str_in (clean_heading_no_numbers h) (page_text d q)"
  shows "search_heading_in_pdf_content h d l = Inr (Some p)"
proof -
  have "filter (\<lambda>q. str_in (clean_heading_no_numbers h) (page_text d q)) (pages_to_search d l) = [p]"
    using filter_single[OF distinct_pages_to_search assms(1), of "\<lambda>q. str_in (clean_heading_no_numbers h) (page_text d q)"]
      assms(2,3) by blast
  then show ?thesis
    by (rule search_exact) (simp_all add: select_match_single)
qed

text \<open>
  In the witness pages 2 and 3 hold both words of the heading, so strategy 2 alone would
  rank three pages and, on the first search, pick page 2.
\<close>

theorem C4_witness:
  "search_heading_in_pdf_content ''Systems Introduction''
     [(1, ''1 Systems Introduction''), (2, ''Introduction to Systems''), (3, ''Systems: an introduction'')] 0
   = Inr (Some 1)"
proof -
  have h1: "1 \<in> set (pages_to_search
     [(1, ''1 Systems Introduction''), (2, ''Introduction to Systems''), (3, ''Systems: an introduction'')] 0)"
    by code_simp
  have h2: "str_in (clean_heading_no_numbers ''Systems Introduction'')
     (page_text [(1, ''1 Systems Introduction''), (2, ''Introduction to Systems''), (3, ''Systems: an introduction'')] 1)"
    by code_simp
  have h3: "\<forall>q \<in> set (pages_to_search
       [(1, ''1 Systems Introduction''), (2, ''Introduction to Systems''), (3, ''Systems: an introduction'')] 0).
     q \<noteq> 1 \<longrightarrow> \<not> str_in (clean_heading_no_numbers ''Systems Introduction'')
       (page_text [(1, ''1 Systems Introduction''), (2, ''Introduction to Systems''), (3, ''Systems: an introduction'')] q)"
    by code_simp
  show ?thesis by (rule C4_exact_match_priority[OF h1 h2 h3])
qed

text \<open>
  The claim as written takes the heading and the page text under the same normalisation.
  The heading "H2O Cycle" stands verbatim on page 2 and on no other page, under the plain
  normalisation of both and under the strict normalisation of both; the locator looks for
  \<open>''ho cycle''\<close> in \<open>''h2o cycle''\<close>, finds one word of two, and returns \<^verbatim>\<open>None\<close>.
\<close>

theorem C4_counterexample:
  "pages_to_search [(1, ''Intro''), (2, ''H2O Cycle''), (3, ''Summary'')] 0 = [1, 2, 3] \<and>
   str_in (clean_text_for_search ''H2O Cycle'') (clean_text_for_search ''H2O Cycle'') \<and>
   \<not> str_in (clean_text_for_search ''H2O Cycle'') (clean_text_for_search ''Intro'') \<and>
   \<not> str_in (clean_text_for_search ''H2O Cycle'') (clean_text_for_search ''Summary'') \<and>
   str_in (remove_numbers_and_special_chars (clean_text_for_search ''H2O Cycle''))
          (remove_numbers_and_special_chars (clean_text_for_search ''H2O Cycle'')) \<and>
   \<not> str_in (remove_numbers_and_special_chars (clean_text_for_search ''H2O Cycle''))
          (remove_numbers_and_special_chars (clean_text_for_search ''Intro'')) \<and>
   \<not> str_in (remove_numbers_and_special_chars (clean_text_for_search ''H2O Cycle''))
          (remove_numbers_and_special_chars (clean_text_for_search ''Summary'')) \<and>
   search_heading_in_pdf_content ''H2O Cycle''
     [(1, ''Intro''), (2, ''H2O Cycle''), (3, ''Summary'')] 0 = Inr None"
  by code_simp

subsection \<open>Second candidate on the first search\<close>

lemma exact_matches_sorted:
  assumes "exact_matches n d (pages_to_search d l) = Inr ms"
  shows "ms = filter (\<lambda>p. str_in n (page_text d p)) (pages_to_search d l)"
    and "sorted ms" and "distinct ms"
proof -
  show eq: "ms = filter (\<lambda>p. str_in n (page_text d p)) (pages_to_search d l)"
    using exact_matches_eq[OF pages_to_search_keys, of n d l] assms by simp
  show "sorted ms" unfolding eq by (rule sorted_wrt_filter[OF sorted_pages_to_search])
  show "distinct ms" unfolding eq by (rule distinct_filter[OF distinct_pages_to_search])
qed

lemma sequence_matches_sorted:
  assumes "sequence_matches ws d (pages_to_search d l) = Inr ms"
  shows "ms = filter (\<lambda>p. phrase_hit ws (page_text d p)) (pages_to_search d l)"
    and "sorted ms" and "distinct ms"
proof -
  show eq: "ms = filter (\<lambda>p. phrase_hit ws (page_text d p)) (pages_to_search d l)"
    using sequence_matches_eq[OF pages_to_search_keys, of ws d l] assms by simp
  show "sorted ms" unfolding eq by (rule sorted_wrt_filter[OF sorted_pages_to_search])
  show "distinct ms" unfolding eq by (rule distinct_filter[OF distinct_pages_to_search])
qed

lemma search_exact_second:
  assumes "exact_matches (clean_heading_no_numbers h) d (pages_to_search d 0) = Inr ms"
    and "2 \<le> length ms"
  shows "search_heading_in_pdf_content h d 0 = Inr (Some (ms ! 1))"
proof -
  have "filter (\<lambda>p. str_in (clean_heading_no_numbers h) (page_text d p)) (pages_to_search d 0) = ms"
    using exact_matches_sorted(1)[OF assms(1)] by simp
  moreover have "ms \<noteq> []" using assms(2) by auto
  moreover have "select_match ms 0 = Inr (ms ! 1)" using assms(2) by (rule select_match_second)
  ultimately show ?thesis by (rule search_exact)
qed

lemma search_after_no_exact:
  assumes "exact_matches (clean_heading_no_numbers h) d (pages_to_search d l) = Inr []"
    and "pages_to_search d l \<noteq> []"
  shows "search_heading_in_pdf_content h d l =
        (case strategy2 (heading_words h) d (pages_to_search d l) l of
           Inl e \<Rightarrow> Inl e
         | Inr (Some p) \<Rightarrow> Inr (Some p)
         | Inr None \<Rightarrow> strategy3 (heading_words h) d (pages_to_search d l) l)"
proof -
  have "d \<noteq> []" using assms(2) pages_to_search_keys[of d l] by auto
  moreover have "filter (\<lambda>p. str_in (clean_heading_no_numbers h) (page_text d p)) (pages_to_search d l) = []"
    using exact_matches_sorted(1)[OF assms(1)] by simp
  ultimately show ?thesis by (rule search_no_exact)
qed

lemma search_partial_second:
  assumes "exact_matches (clean_heading_no_numbers h) d (pages_to_search d 0) = Inr []"
    and "2 \<le> length (heading_words h)"
    and "partial_matches (heading_words h) d (pages_to_search d 0) = Inr pm"
    and "2 \<le> length pm"
  shows "search_heading_in_pdf_content h d 0 = Inr (Some (fst (sort_by_ratio_desc pm ! 1)))"
proof -
  have ne: "pages_to_search d 0 \<noteq> []" using assms(3,4) by (cases "pages_to_search d 0") auto
  have "pm \<noteq> []" using assms(4) by auto
  moreover have "select_match (sort_by_ratio_desc pm) 0 = Inr (sort_by_ratio_desc pm ! 1)"
    using assms(4) by (simp add: select_match_second length_sort_by_ratio_desc)
  ultimately have "strategy2 (heading_words h) d (pages_to_search d 0) 0 =
      Inr (Some (fst (sort_by_ratio_desc pm ! 1)))"
    using assms(2,3) by (simp add: strategy2_def)
  then show ?thesis using search_after_no_exact[OF assms(1) ne] by simp
qed

lemma search_sequence_second:
  assumes "exact_matches (clean_heading_no_numbers h) d (pages_to_search d 0) = Inr []"
    and "strategy2 (heading_words h) d (pages_to_search d 0) 0 = Inr None"
    and "3 \<le> length (heading_words h)"
    and "sequence_matches (heading_words h) d (pages_to_search d 0) = Inr sm"
    and "2 \<le> length sm"
  shows "search_heading_in_pdf_content h d 0 = Inr (Some (sm ! 1))"
proof -
  have ne: "pages_to_search d 0 \<noteq> []" using assms(4,5) by (cases "pages_to_search d 0") auto
  have "sm \<noteq> []" using assms(5) by auto
  moreover have "select_match sm 0 = Inr (sm ! 1)" using assms(5) by (rule select_match_second)
  ultimately have "strategy3 (heading_words h) d (pages_to_search d 0) 0 = Inr (Some (sm ! 1))"
    using assms(3,4) by (simp add: strategy3_def)
  then show ?thesis using search_after_no_exact[OF assms(1) ne] assms(2) by simp
qed

lemma search_exact_on_3_7:
  assumes "{p \<in> set (pages_to_search d 0). str_in (clean_heading_no_numbers h) (page_text d p)} = {3, 7}"
  shows "search_heading_in_pdf_content h d 0 = Inr (Some 7)"
proof -
  let ?ms = "filter (\<lambda>p. str_in (clean_heading_no_numbers h) (page_text d p)) (pages_to_search d 0)"
  have em: "exact_matches (clean_heading_no_numbers h) d (pages_to_search d 0) = Inr ?ms"
    by (rule exact_matches_eq[OF pages_to_search_keys])
  have "sorted ?ms" "distinct ?ms"
    using exact_matches_sorted(2,3)[OF em] by blast+
  moreover have "sorted [3, 7 :: int]" "distinct [3, 7 :: int]" by simp_all
  moreover have "set ?ms = set [3, 7 :: int]" using assms by simp
  ultimately have "?ms = [3, 7]" using sorted_distinct_set_unique by blast
  then show ?thesis using search_exact_second[OF em] by simp
qed

text \<open>
  C5 (as amended). On the first search (\<open>last_found_page = 0\<close>), when the strategy that
  decides has two or more candidates, the locator returns the second one: of the exact
  matches, which are in ascending page order; else, for a heading of two or more words,
  of the word-overlap matches in ranked order; else, for a heading of three or more
  words, of the phrase matches, in ascending page order. In particular, when the pages of
  the window whose normalised text (digits kept) contains the strict-normalised heading
  (digits removed) are the pages 3 and 7, the locator returns page 7.
\<close>

theorem C5_second_candidate:
  "(exact_matches (clean_heading_no_numbers h) d (pages_to_search d 0) = Inr em \<and> 2 \<le> length em \<longrightarrow>
      search_heading_in_pdf_content h d 0 = Inr (Some (em ! 1)) \<and> sorted em \<and> distinct em) \<and>
   (exact_matches (clean_heading_no_numbers h) d (pages_to_search d 0) = Inr [] \<and>
    2 \<le> length (heading_words h) \<and>
    partial_matches (heading_words h) d (pages_to_search d 0) = Inr pm \<and> 2 \<le> length pm \<longrightarrow>
      search_heading_in_pdf_content h d 0 = Inr (Some (fst (sort_by_ratio_desc pm ! 1)))) \<and>
   (exact_matches (clean_heading_no_numbers h) d (pages_to_search d 0) = Inr [] \<and>
    strategy2 (heading_words h) d (pages_to_search d 0) 0 = Inr None \<and>
    3 \<le> length (heading_words h) \<and>
    sequence_matches (heading_words h) d (pages_to_search d 0) = Inr sm \<and> 2 \<le> length sm \<longrightarrow>
      search_heading_in_pdf_content h d 0 = Inr (Some (sm ! 1)) \<and> sorted sm \<and> distinct sm) \<and>
   ({p \<in> set (pages_to_search d 0). str_in (clean_heading_no_numbers h) (page_text d p)} = {3, 7} \<longrightarrow>
      search_heading_in_pdf_content h d 0 = Inr (Some 7))"
proof (intro conjI impI)
  assume a: "exact_matches (clean_heading_no_numbers h) d (pages_to_search d 0) = Inr em \<and> 2 \<le> length em"
  then show "search_heading_in_pdf_content h d 0 = Inr (Some (em ! 1))"
    using search_exact_second by blast
  from a show "sorted em" using exact_matches_sorted(2) by blast
  from a show "distinct em" using exact_matches_sorted(3) by blast
next
  assume "exact_matches (clean_heading_no_numbers h) d (pages_to_search d 0) = Inr [] \<and>
    2 \<le> length (heading_words h) \<and>
    partial_matches (heading_words h) d (pages_to_search d 0) = Inr pm \<and> 2 \<le> length pm"
  then show "search_heading_in_pdf_content h d 0 = Inr (Some (fst (sort_by_ratio_desc pm ! 1)))"
    using search_partial_second by blast
next
  assume a: "exact_matches (clean_heading_no_numbers h) d (pages_to_search d 0) = Inr [] \<and>
    strategy2 (heading_words h) d (pages_to_search d 0) 0 = Inr None \<and>
    3 \<le> length (heading_words h) \<and>
    sequence_matches (heading_words h) d (pages_to_search d 0) = Inr sm \<and> 2 \<le> length sm"
  then show "search_heading_in_pdf_content h d 0 = Inr (Some (sm ! 1))"
    using search_sequence_second by blast
  from a show "sorted sm" using sequence_matches_sorted(2) by blast
  from a show "distinct sm" using sequence_matches_sorted(3) by blast
next
  assume "{p \<in> set (pages_to_search d 0). str_in (clean_heading_no_numbers h) (page_text d p)} = {3, 7}"
  then show "search_heading_in_pdf_content h d 0 = Inr (Some 7)"
    by (rule search_exact_on_3_7)
qed

text \<open>
  The claim as written takes the heading and the page text under the same normalisation.
  The heading "H2O Cycle" stands verbatim on the pages 3 and 7 and on no other, under the
  plain and under the strict normalisation of both, and the locator returns \<^verbatim>\<open>None\<close>.
\<close>

theorem C5_counterexample:
  "pages_to_search [(1, ''Contents''), (3, ''H2O Cycle''), (5, ''Data''), (7, ''The H2O Cycle'')] 0 = [1, 3, 5, 7] \<and>
   \<not> str_in (clean_text_for_search ''H2O Cycle'') (clean_text_for_search ''Contents'') \<and>
   str_in (clean_text_for_search ''H2O Cycle'') (clean_text_for_search ''H2O Cycle'') \<and>
   \<not> str_in (clean_text_for_search ''H2O Cycle'') (clean_text_for_search ''Data'') \<and>
   str_in (clean_text_for_search ''H2O Cycle'') (clean_text_for_search ''The H2O Cycle'') \<and>
   \<not> str_in (remove_numbers_and_special_chars (clean_text_for_search ''H2O Cycle''))
          (remove_numbers_and_special_chars (clean_text_for_search ''Contents'')) \<and>
   str_in (remove_numbers_and_special_chars (clean_text_for_search ''H2O Cycle''))
          (remove_numbers_and_special_chars (clean_text_for_search ''H2O Cycle'')) \<and>
   \<not> str_in (remove_numbers_and_special_chars (clean_text_for_search ''H2O Cycle''))
          (remove_numbers_and_special_chars (clean_text_for_search ''Data'')) \<and>
   str_in (remove_numbers_and_special_chars (clean_text_for_search ''H2O Cycle''))
          (remove_numbers_and_special_chars (clean_text_for_search ''The H2O Cycle'')) \<and>
   search_heading_in_pdf_content ''H2O Cycle''
     [(1, ''Contents''), (3, ''H2O Cycle''), (5, ''Data''), (7, ''The H2O Cycle'')] 0 = Inr None"
  by code_simp

text \<open>
  The witness has one document for each part: two exact matches (pages 1 and 3); no exact
  match and three word-overlap matches ranked 2, 1, 3; a five-word heading with neither
  and two phrase matches (pages 1 and 3); exact matches on the pages 3 and 7.
\<close>

theorem C5_witness:
  "search_heading_in_pdf_content ''Introduction to Systems''
     [(1, ''Introduction to Systems''), (2, ''Background''),
      (3, ''Introduction to Systems details follow'')] 0 = Inr (Some 3) \<and>
   search_heading_in_pdf_content ''aa bb cc dd''
     [(1, ''aa bb cc''), (2, ''dd cc bb aa''), (3, ''bb cc dd'')] 0 = Inr (Some 1) \<and>
   search_heading_in_pdf_content ''alpha beta gamma delta epsilon''
     [(1, ''alpha beta gamma''), (2, ''zeta''), (3, ''see alpha beta gamma here'')] 0 = Inr (Some 3) \<and>
   search_heading_in_pdf_content ''Methods''
     [(1, ''Contents''), (3, ''Methods overview''), (5, ''Data''), (7, ''Methods'')] 0 = Inr (Some 7)"
proof -
  let ?d1 = "[(1, ''Introduction to Systems''), (2, ''Background''),
      (3, ''Introduction to Systems details follow'')] :: corpus"
  let ?d2 = "[(1, ''aa bb cc''), (2, ''dd cc bb aa''), (3, ''bb cc dd'')] :: corpus"
  let ?d3 = "[(1, ''alpha beta gamma''), (2, ''zeta''), (3, ''see alpha beta gamma here'')] :: corpus"
  let ?d4 = "[(1, ''Contents''), (3, ''Methods overview''), (5, ''Data''), (7, ''Methods'')] :: corpus"
  have a1: "exact_matches (clean_heading_no_numbers ''Introduction to Systems'') ?d1 (pages_to_search ?d1 0)
              = Inr [1, 3] \<and> 2 \<le> length [1, 3 :: int]"
    by code_simp
  have c1: "search_heading_in_pdf_content ''Introduction to Systems'' ?d1 0 = Inr (Some ([1, 3] ! 1))"
    using C5_second_candidate[where h = "''Introduction to Systems''" and d = ?d1 and em = "[1, 3]"] a1
    by blast
  have a2: "exact_matches (clean_heading_no_numbers ''aa bb cc dd'') ?d2 (pages_to_search ?d2 0) = Inr [] \<and>
      2 \<le> length (heading_words ''aa bb cc dd'') \<and>
      partial_matches (heading_words ''aa bb cc dd'') ?d2 (pages_to_search ?d2 0)
        = Inr [(1, 3 / 4), (2, 1), (3, 3 / 4)] \<and>
      2 \<le> length [(1 :: int, 3 / 4 :: rat), (2, 1), (3, 3 / 4)]"
    by code_simp
  have r2: "fst (sort_by_ratio_desc [(1 :: int, 3 / 4 :: rat), (2, 1), (3, 3 / 4)] ! 1) = 1"
    by code_simp
  have c2: "search_heading_in_pdf_content ''aa bb cc dd'' ?d2 0 =
      Inr (Some (fst (sort_by_ratio_desc [(1, 3 / 4), (2, 1), (3, 3 / 4)] ! 1)))"
    using C5_second_candidate[where h = "''aa bb cc dd''" and d = ?d2
        and pm = "[(1, 3 / 4), (2, 1), (3, 3 / 4)]"] a2
    by blast
  have a3: "exact_matches (clean_heading_no_numbers ''alpha beta gamma delta epsilon'') ?d3 (pages_to_search ?d3 0) = Inr [] \<and>
      strategy2 (heading_words ''alpha beta gamma delta epsilon'') ?d3 (pages_to_search ?d3 0) 0 = Inr None \<and>
      3 \<le> length (heading_words ''alpha beta gamma delta epsilon'') \<and>
      sequence_matches (heading_words ''alpha beta gamma delta epsilon'') ?d3 (pages_to_search ?d3 0)
        = Inr [1, 3] \<and>
      2 \<le> length [1, 3 :: int]"
    by code_simp
  have c3: "search_heading_in_pdf_content ''alpha beta gamma delta epsilon'' ?d3 0 = Inr (Some ([1, 3] ! 1))"
    using C5_second_candidate[where h = "''alpha beta gamma delta epsilon''" and d = ?d3 and sm = "[1, 3]"] a3
    by blast
  have f4: "filter (\<lambda>p. str_in (clean_heading_no_numbers ''Methods'') (page_text ?d4 p)) (pages_to_search ?d4 0)
      = [3, 7]"
    by code_simp
  have "{p \<in> set (pages_to_search ?d4 0). str_in (clean_heading_no_numbers ''Methods'') (page_text ?d4 p)}
      = set (filter (\<lambda>p. str_in (clean_heading_no_numbers ''Methods'') (page_text ?d4 p)) (pages_to_search ?d4 0))"
    by simp
  then have a4: "{p \<in> set (pages_to_search ?d4 0). str_in (clean_heading_no_numbers ''Methods'') (page_text ?d4 p)}
      = {3, 7}"
    unfolding f4 by simp
  have c4: "search_heading_in_pdf_content ''Methods'' ?d4 0 = Inr (Some 7)"
    using C5_second_candidate[where h = "''Methods''" and d = ?d4] a4
    by blast
  from c1 c2 c3 c4 r2 show ?thesis by simp
qed

subsection \<open>Strategy 2: the ranked list\<close>






text \<open>The list of the second document, before and after sorting.\<close>

lemma word_overlap_example:
  "partial_matches (heading_words ''aa bb cc dd'')
            [(1, ''aa bb cc''), (2, ''dd cc bb aa''), (3, ''bb cc''), (4, ''bb cc dd'')]
            (pages_to_search [(1, ''aa bb cc''), (2, ''dd cc bb aa''), (3, ''bb cc''), (4, ''bb cc dd'')] 0)
     = Inr [(1, 3 / 4), (2, 1), (4, 3 / 4)] \<and>
   sort_by_ratio_desc [(1 :: int, 3 / 4 :: rat), (2, 1), (4, 3 / 4)] = [(2, 1), (1, 3 / 4), (4, 3 / 4)]"
  by code_simp

subsection \<open>Fallback after a positive match\<close>

lemma search_found_in_window:
  "search_heading_in_pdf_content h d l = Inr (Some p) \<Longrightarrow> p \<in> set (pages_to_search d l)"
  using search_cases[of h d l] by auto

lemma found_page_after_cursor:
  assumes "search_heading_in_pdf_content h d l = Inr (Some p)"
  shows "p \<in> fst ` set d" and "1 \<le> p" and "l < p"
proof -
  have w: "p \<in> set (pages_to_search d l)" using assms by (rule search_found_in_window)
  then show "p \<in> fst ` set d" by (simp add: set_pages_to_search)
  from w show "1 \<le> p" by (simp add: set_pages_to_search split: if_splits)
  from w show "l < p" by (simp add: set_pages_to_search split: if_splits)
qed

lemma Max_keys_ge: "p \<in> fst ` set d \<Longrightarrow> p \<le> Max (fst ` set d)"
  by (rule Max_ge) simp_all

lemma fallback_after_found:
  assumes "2 < length (py_strip (tag_text t1))"
    and "search_heading_in_pdf_content (py_strip (tag_text t1)) d (snd st) = Inr (Some p)"
    and "2 < length (py_strip (tag_text t2))"
    and "search_heading_in_pdf_content (py_strip (tag_text t2)) d p = Inr None"
  shows "\<exists>q. process_heading d st t1 =
             Inr (fst st @ [\<lparr>level = tag_level t1, heading = py_strip (tag_text t1), page = Some p\<rparr>], p) \<and>
           process_heading d (fst st @ [\<lparr>level = tag_level t1, heading = py_strip (tag_text t1), page = Some p\<rparr>], p) t2 =
             Inr (fst st @ [\<lparr>level = tag_level t1, heading = py_strip (tag_text t1), page = Some p\<rparr>,
                            \<lparr>level = tag_level t2, heading = py_strip (tag_text t2), page = Some q\<rparr>],
                  if q \<noteq> 0 \<and> p < q then q else p) \<and>
           q = min (p + 1) (Max (fst ` set d)) \<and> p \<le> q"
proof -
  let ?e1 = "\<lparr>level = tag_level t1, heading = py_strip (tag_text t1), page = Some p\<rparr>"
  let ?q = "min (p + 1) (Max (fst ` set d))"
  let ?e2 = "\<lparr>level = tag_level t2, heading = py_strip (tag_text t2), page = Some ?q\<rparr>"
  note f = found_page_after_cursor[OF assms(2)]
  have one: "process_heading d st t1 = Inr (fst st @ [?e1], p)"
    using process_heading_found[OF assms(1,2)] f(2,3) by simp
  have "d \<noteq> []" using f(1) by auto
  then have est: "estimate_page_from_surrounding_headings (py_strip (tag_text t2))
        (fst (fst st @ [?e1], p)) d (snd (fst st @ [?e1], p)) = Inr ?q"
    using f(2) by (simp add: estimate_page_from_surrounding_headings_def max_page_of_eq)
  have srch: "search_heading_in_pdf_content (py_strip (tag_text t2)) d (snd (fst st @ [?e1], p)) = Inr None"
    using assms(4) by simp
  have two: "process_heading d (fst st @ [?e1], p) t2 =
      Inr (fst st @ [?e1, ?e2], if ?q \<noteq> 0 \<and> p < ?q then ?q else p)"
    using process_heading_fallback[OF assms(3) srch est]
    by (simp only: fst_conv snd_conv append_assoc append_Cons append_Nil)
  have "p \<le> ?q" using Max_keys_ge[OF f(1)] by simp
  with one two show ?thesis by blast
qed

lemma headings_loop_extends:
  "\<exists>ext l'. headings_loop d st tags = Inr (fst st @ ext, l')"
proof (induction tags arbitrary: st)
  case Nil
  show ?case by (cases st) simp
next
  case (Cons t tags)
  show ?case
  proof (cases "2 < length (py_strip (tag_text t))")
    case True
    then obtain q l1 where st1: "process_heading d st t =
        Inr (fst st @ [\<lparr>level = tag_level t, heading = py_strip (tag_text t), page = Some q\<rparr>], l1)"
      using process_heading_kept by blast
    let ?e = "\<lparr>level = tag_level t, heading = py_strip (tag_text t), page = Some q\<rparr>"
    obtain ext l' where "headings_loop d (fst st @ [?e], l1) tags = Inr ((fst st @ [?e]) @ ext, l')"
      using Cons[of "(fst st @ [?e], l1)"] by auto
    then have "headings_loop d st (t # tags) = Inr (fst st @ (?e # ext), l')"
      using st1 by simp
    then show ?thesis by blast
  next
    case False
    then have "process_heading d st t = Inr st" by (simp add: process_heading_skip)
    then show ?thesis using Cons[of st] by simp
  qed
qed

text \<open>
  C8. In a pass over the tags \<open>pre @ t1 # mid @ t2 # post\<close>, let \<open>st\<close> be the state
  after \<open>pre\<close>, let the locator find the heading of \<open>t1\<close> on page \<open>p\<close>, let no tag of
  \<open>mid\<close> produce a record, and let the locator find nothing for \<open>t2\<close>. Then the records
  of \<open>t1\<close> and \<open>t2\<close> are adjacent in the outline, the first has page \<open>p\<close>, the cursor
  after it is \<open>p\<close>, and the page \<open>q\<close> that the estimator gives the second is
  \<open>min (p + 1) max_page\<close>, which is not behind \<open>p\<close>.
\<close>

theorem C8_fallback_not_behind:
  assumes "headings_loop d ([], 0) pre = Inr st"
    and "2 < length (py_strip (tag_text t1))"
    and "search_heading_in_pdf_content (py_strip (tag_text t1)) d (snd st) = Inr (Some p)"
    and "\<forall>t \<in> set mid. length (py_strip (tag_text t)) \<le> 2"
    and "2 < length (py_strip (tag_text t2))"
    and "search_heading_in_pdf_content (py_strip (tag_text t2)) d p = Inr None"
  shows "\<exists>out q. extract_headings_from_html d (pre @ t1 # mid @ t2 # post) = Inr out \<and>
           length (fst st) + 1 < length out \<and>
           page (out ! length (fst st)) = Some p \<and>
           heading (out ! length (fst st)) = py_strip (tag_text t1) \<and>
           page (out ! (length (fst st) + 1)) = Some q \<and>
           heading (out ! (length (fst st) + 1)) = py_strip (tag_text t2) \<and>
           (\<exists>o1. process_heading d st t1 = Inr (o1, p)) \<and>
           q = min (p + 1) (Max (fst ` set d)) \<and>
           p \<le> q"
proof -
  let ?e1 = "\<lparr>level = tag_level t1, heading = py_strip (tag_text t1), page = Some p\<rparr>"
  obtain q where q: "process_heading d st t1 = Inr (fst st @ [?e1], p)"
    "process_heading d (fst st @ [?e1], p) t2 =
       Inr (fst st @ [?e1, \<lparr>level = tag_level t2, heading = py_strip (tag_text t2), page = Some q\<rparr>],
            if q \<noteq> 0 \<and> p < q then q else p)"
    "q = min (p + 1) (Max (fst ` set d))" "p \<le> q"
    using fallback_after_found[OF assms(2,3,5,6)] by blast
  let ?e2 = "\<lparr>level = tag_level t2, heading = py_strip (tag_text t2), page = Some q\<rparr>"
  let ?st2 = "(fst st @ [?e1, ?e2], if q \<noteq> 0 \<and> p < q then q else p)"
  have mid: "headings_loop d (fst st @ [?e1], p) mid = Inr (fst st @ [?e1], p)"
    using assms(4) by (rule headings_loop_skip)
  obtain ext l' where ext: "headings_loop d ?st2 post = Inr (fst ?st2 @ ext, l')"
    using headings_loop_extends by blast
  have "headings_loop d st (t1 # mid @ t2 # post) = Inr (fst ?st2 @ ext, l')"
    using q(1,2) mid ext by (simp add: headings_loop_append)
  then have "headings_loop d ([], 0) (pre @ t1 # mid @ t2 # post) = Inr (fst ?st2 @ ext, l')"
    using assms(1) by (simp add: headings_loop_append)
  then have out: "extract_headings_from_html d (pre @ t1 # mid @ t2 # post) = Inr (fst st @ ?e1 # ?e2 # ext)"
    by (simp add: extract_headings_from_html_def)
  have "length (fst st) + 1 < length (fst st @ ?e1 # ?e2 # ext)" by simp
  moreover have "(fst st @ ?e1 # ?e2 # ext) ! length (fst st) = ?e1" by simp
  moreover have "(fst st @ ?e1 # ?e2 # ext) ! (length (fst st) + 1) = ?e2"
    by (simp add: nth_append)
  moreover have "\<exists>o1. process_heading d st t1 = Inr (o1, p)"
    using q(1) by blast
  ultimately show ?thesis using out q(3,4) by (metis outline_entry.select_convs(2,3))
qed

text \<open>
  In the witness "Intro" is found on page 1 and "Scope" on page 2; the tag "1." gives no
  record; "Budget" is on no page after page 2 and gets page 3 from the estimator.
\<close>

theorem C8_witness:
  "\<exists>out q. extract_headings_from_html
       [(1, ''Intro''), (2, ''Scope of work''), (3, ''Details''), (4, ''Annex'')]
       ([\<lparr>tag_level = H1, tag_text = ''Intro''\<rparr>] @ \<lparr>tag_level = H1, tag_text = ''Scope''\<rparr> #
        [\<lparr>tag_level = H3, tag_text = '' 1. ''\<rparr>] @ \<lparr>tag_level = H2, tag_text = ''Budget''\<rparr> # []) = Inr out \<and>
     length (fst ([\<lparr>level = H1, heading = ''Intro'', page = Some 1\<rparr>], 1 :: int)) + 1 < length out \<and>
     page (out ! length (fst ([\<lparr>level = H1, heading = ''Intro'', page = Some 1\<rparr>], 1 :: int))) = Some 2 \<and>
     heading (out ! length (fst ([\<lparr>level = H1, heading = ''Intro'', page = Some 1\<rparr>], 1 :: int)))
       = py_strip (tag_text \<lparr>tag_level = H1, tag_text = ''Scope''\<rparr>) \<and>
     page (out ! (length (fst ([\<lparr>level = H1, heading = ''Intro'', page = Some 1\<rparr>], 1 :: int)) + 1)) = Some q \<and>
     heading (out ! (length (fst ([\<lparr>level = H1, heading = ''Intro'', page = Some 1\<rparr>], 1 :: int)) + 1))
       = py_strip (tag_text \<lparr>tag_level = H2, tag_text = ''Budget''\<rparr>) \<and>
     (\<exists>o1. process_heading [(1, ''Intro''), (2, ''Scope of work''), (3, ''Details''), (4, ''Annex'')]
        ([\<lparr>level = H1, heading = ''Intro'', page = Some 1\<rparr>], 1)
        \<lparr>tag_level = H1, tag_text = ''Scope''\<rparr> = Inr (o1, 2)) \<and>
     q = min (2 + 1) (Max (fst ` set [(1 :: int, ''Intro''), (2, ''Scope of work''), (3, ''Details''), (4, ''Annex'')])) \<and>
     2 \<le> q"
proof -
  let ?d = "[(1, ''Intro''), (2, ''Scope of work''), (3, ''Details''), (4, ''Annex'')] :: corpus"
  have h1: "headings_loop ?d ([], 0) [\<lparr>tag_level = H1, tag_text = ''Intro''\<rparr>] =
      Inr ([\<lparr>level = H1, heading = ''Intro'', page = Some 1\<rparr>], 1)"
    by code_simp
  have h2: "2 < length (py_strip (tag_text \<lparr>tag_level = H1, tag_text = ''Scope''\<rparr>))"
    by code_simp
  have h3: "search_heading_in_pdf_content (py_strip (tag_text \<lparr>tag_level = H1, tag_text = ''Scope''\<rparr>)) ?d
      (snd ([\<lparr>level = H1, heading = ''Intro'', page = Some 1\<rparr>], 1 :: int)) = Inr (Some 2)"
    by code_simp
  have h4: "\<forall>t \<in> set [\<lparr>tag_level = H3, tag_text = '' 1. ''\<rparr>]. length (py_strip (tag_text t)) \<le> 2"
    by code_simp
  have h5: "2 < length (py_strip (tag_text \<lparr>tag_level = H2, tag_text = ''Budget''\<rparr>))"
    by code_simp
  have h6: "search_heading_in_pdf_content (py_strip (tag_text \<lparr>tag_level = H2, tag_text = ''Budget''\<rparr>)) ?d 2
      = Inr None"
    by code_simp
  show ?thesis
    by (rule C8_fallback_not_behind[OF h1 h2 h3 h4 h5 h6])
qed

end
